theory Spec2Isabelle
  imports Main "HOL-Library.Word"
begin

section \<open>Native data of \<open>pam.py\<close>\<close>

text \<open>
  \<open>pam.py\<close> drives the native PAM library through ctypes. The embedding keeps the
  ctypes declarations of the source: \<open>c_int\<close> values are 32-bit words, pointers are
  native addresses with \<open>0\<close> for the NULL pointer, and the two structures
  \<open>PamMessage\<close> and \<open>PamResponse\<close> are records with the fields of \<open>_fields_\<close>.
  Python strings are represented by their UTF-8 bytes, so \<open>s.encode('utf-8')\<close> is the
  string itself.
\<close>

type_synonym c_int = "32 word"
type_synonym addr = nat

definition PAM_PROMPT_ECHO_OFF :: c_int where "PAM_PROMPT_ECHO_OFF = 1"
definition PAM_PROMPT_ECHO_ON :: c_int where "PAM_PROMPT_ECHO_ON = 2"
definition PAM_ERROR_MSG :: c_int where "PAM_ERROR_MSG = 3"
definition PAM_TEXT_INFO :: c_int where "PAM_TEXT_INFO = 4"

record PamMessage =
  msg_style :: c_int
  msg :: addr

record PamResponse =
  resp :: addr
  resp_retcode :: c_int

text \<open>
  Native memory is a sequence of live objects; the object at address \<open>a > 0\<close> is
  \<open>heap ! (a - 1)\<close>. An object is a character buffer, the array of message pointers and
  a message structure handed in by the PAM module, an array of response structures, or
  the cell behind \<open>p_response\<close> that receives the address of the response array.
\<close>

datatype obj =
    Chars string
  | MessagePtrs "addr list"
  | Message PamMessage
  | Responses "PamResponse list"
  | ResponsePtr addr

text \<open>The calls made on the C library, with the address each one returned.\<close>

datatype libc_call = is_Calloc: Calloc nat addr | is_Strdup: Strdup string addr

text \<open>
  \<open>oom\<close> is the behaviour of the native allocator in the requests to come: \<open>True\<close> where
  the request finds no memory and NULL is returned. Past the end of the list every
  request is served.
\<close>

record memory =
  heap :: "obj list"
  oom :: "bool list"
  calls :: "libc_call list"

text \<open>
  What an access can end in other than a value: ctypes raises \<open>ValueError\<close> ("NULL
  pointer access") when a NULL pointer is dereferenced or indexed; an access through
  any other pointer that does not designate a live object of the pointer's type is left
  to the hardware.
\<close>

datatype failure = ValueError | Segfault

definition lookup :: "memory \<Rightarrow> addr \<Rightarrow> obj option" where
  "lookup m a = (if a = 0 \<or> length (heap m) < a then None else Some (heap m ! (a - 1)))"

definition store :: "memory \<Rightarrow> addr \<Rightarrow> obj \<Rightarrow> memory" where
  "store m a x = m\<lparr>heap := (heap m)[a - 1 := x]\<rparr>"

definition deref :: "memory \<Rightarrow> addr \<Rightarrow> failure + obj" where
  "deref m p =
     (if p = 0 then Inl ValueError
      else case lookup m p of None \<Rightarrow> Inl Segfault | Some x \<Rightarrow> Inr x)"

subsection \<open>The C library: \<open>calloc\<close> and \<open>strdup\<close>\<close>

definition allocate :: "obj \<Rightarrow> memory \<Rightarrow> addr \<times> memory" where
  "allocate x m =
     (case oom m of
        True # later \<Rightarrow> (0, m\<lparr>oom := later\<rparr>)
      | False # later \<Rightarrow> (Suc (length (heap m)), m\<lparr>heap := heap m @ [x], oom := later\<rparr>)
      | [] \<Rightarrow> (Suc (length (heap m)), m\<lparr>heap := heap m @ [x]\<rparr>))"

definition zeroed :: PamResponse where
  "zeroed = \<lparr>resp = 0, resp_retcode = 0\<rparr>"

text \<open>
  \<open>CALLOC(n, sizeof(PamResponse))\<close>: a block of \<open>n\<close> zeroed response structures, or NULL.
  The element size is that of the record.
\<close>

definition CALLOC :: "nat \<Rightarrow> memory \<Rightarrow> addr \<times> memory" where
  "CALLOC n m =
     (let (a, m') = allocate (Responses (replicate n zeroed)) m
      in (a, m'\<lparr>calls := calls m' @ [Calloc n a]\<rparr>))"

text \<open>
  \<open>strdup\<close> copies a C string: the bytes before the first zero byte. The source sets
  \<open>STRDUP.argstypes\<close>, a name ctypes does not read, so the \<open>bytes\<close> argument goes by the
  default conversion, as a pointer to its buffer.
\<close>

definition c_string :: "string \<Rightarrow> string" where
  "c_string bs = takeWhile (\<lambda>c. c \<noteq> CHR 0x00) bs"

definition STRDUP :: "string \<Rightarrow> memory \<Rightarrow> addr \<times> memory" where
  "STRDUP bs m =
     (let (a, m') = allocate (Chars (c_string bs)) m
      in (a, m'\<lparr>calls := calls m' @ [Strdup bs a]\<rparr>))"

section \<open>The conversation function \<open>my_conv\<close>\<close>

text \<open>\<open>messages[i].contents\<close>: the \<open>i\<close>-th pointer of the array, dereferenced.\<close>

definition get_message :: "memory \<Rightarrow> addr \<Rightarrow> nat \<Rightarrow> failure + PamMessage" where
  "get_message m messages i =
     (case deref m messages of
        Inl e \<Rightarrow> Inl e
      | Inr (MessagePtrs ps) \<Rightarrow>
          if i < length ps then
            (case deref m (ps ! i) of
               Inl e \<Rightarrow> Inl e
             | Inr (Message x) \<Rightarrow> Inr x
             | Inr _ \<Rightarrow> Inl Segfault)
          else Inl Segfault
      | Inr _ \<Rightarrow> Inl Segfault)"

text \<open>\<open>p_response[0] = cast(addr, POINTER(PamResponse))\<close>\<close>

definition set_response_ptr :: "memory \<Rightarrow> addr \<Rightarrow> addr \<Rightarrow> failure + memory" where
  "set_response_ptr m p_response a =
     (case deref m p_response of
        Inl e \<Rightarrow> Inl e
      | Inr (ResponsePtr _) \<Rightarrow> Inr (store m p_response (ResponsePtr a))
      | Inr _ \<Rightarrow> Inl Segfault)"

text \<open>\<open>p_response.contents[i].field = v\<close>, the assignment given as a record update.\<close>

definition set_response :: "(PamResponse \<Rightarrow> PamResponse) \<Rightarrow> memory \<Rightarrow> addr \<Rightarrow> nat \<Rightarrow> failure + memory" where
  "set_response f m p_response i =
     (case deref m p_response of
        Inl e \<Rightarrow> Inl e
      | Inr (ResponsePtr a) \<Rightarrow>
          (case deref m a of
             Inl e \<Rightarrow> Inl e
           | Inr (Responses rs) \<Rightarrow>
               if i < length rs then Inr (store m a (Responses (rs[i := f (rs ! i)])))
               else Inl Segfault
           | Inr _ \<Rightarrow> Inl Segfault)
      | Inr _ \<Rightarrow> Inl Segfault)"

text \<open>The body of \<open>for i in range(n_messages)\<close>, over the indices still to visit.\<close>

fun conv_loop :: "string \<Rightarrow> addr \<Rightarrow> addr \<Rightarrow> nat list \<Rightarrow> memory \<Rightarrow> failure option \<times> memory" where
  "conv_loop password messages p_response [] m = (None, m)"
| "conv_loop password messages p_response (i # todo) m =
     (case get_message m messages i of
        Inl e \<Rightarrow> (Some e, m)
      | Inr x \<Rightarrow>
          if msg_style x = PAM_PROMPT_ECHO_OFF then
            (let (pw_copy, m1) = STRDUP password m in
             case set_response (\<lambda>r. r\<lparr>resp := pw_copy\<rparr>) m1 p_response i of
               Inl e \<Rightarrow> (Some e, m1)
             | Inr m2 \<Rightarrow>
                 (case set_response (\<lambda>r. r\<lparr>resp_retcode := 0\<rparr>) m2 p_response i of
                    Inl e \<Rightarrow> (Some e, m2)
                  | Inr m3 \<Rightarrow> conv_loop password messages p_response todo m3))
          else conv_loop password messages p_response todo m)"

text \<open>
  \<open>range(n_messages)\<close> for the signed value of the \<open>c_int\<close>; \<open>CALLOC\<close> declares its
  arguments \<open>c_uint\<close>, so it receives the unsigned value.
\<close>

definition range_c_int :: "c_int \<Rightarrow> nat list" where
  "range_c_int n = [0 ..< nat (sint n)]"

text \<open>
  The function under \<open>@CONV_FUNC\<close>. Its result is the value of \<open>return 0\<close>, or the
  exception that ended the call before the \<open>return\<close> was reached.
\<close>

definition my_conv :: "string \<Rightarrow> c_int \<Rightarrow> addr \<Rightarrow> addr \<Rightarrow> addr \<Rightarrow> memory \<Rightarrow> (failure + c_int) \<times> memory" where
  "my_conv password n_messages messages p_response app_data m =
     (let (a, m1) = CALLOC (unat n_messages) m in
      case set_response_ptr m1 p_response a of
        Inl e \<Rightarrow> (Inl e, m1)
      | Inr m2 \<Rightarrow>
          (case conv_loop password messages p_response (range_c_int n_messages) m2 of
             (Some e, m3) \<Rightarrow> (Inl e, m3)
           | (None, m3) \<Rightarrow> (Inr 0, m3)))"

section \<open>The session: \<open>authenticate\<close>\<close>

type_synonym CONV_FUNC = "c_int \<Rightarrow> addr \<Rightarrow> addr \<Rightarrow> addr \<Rightarrow> memory \<Rightarrow> (failure + c_int) \<times> memory"

record PamConv =
  conv :: CONV_FUNC
  appdata_ptr :: addr

text \<open>\<open>PamHandle()\<close>: the structure with its one field \<open>handle\<close> set to 0.\<close>

definition PamHandle :: addr where
  "PamHandle = 0"

text \<open>
  The three entry points of the PAM library are given: any functions of the library's
  own state \<open>'n\<close>. \<open>pam_start\<close> receives the service, the user, the conversation
  structure and the handle structure as it is, and yields a status and the handle as it
  left it. What the library does with the conversation function, and with a call of it
  that ends in a Python exception, is the library's and ctypes' business: \<open>authenticate\<close>
  sees the three statuses only. All three are \<open>c_int\<close>: the source sets \<open>PAM_END.restpe\<close>,
  a name ctypes does not read, and \<open>c_int\<close> is the result type of a function that has none
  set.
\<close>

record 'n libpam =
  pam_start :: "string \<Rightarrow> string \<Rightarrow> PamConv \<Rightarrow> addr \<Rightarrow> 'n \<Rightarrow> (c_int \<times> addr) \<times> 'n"
  pam_authenticate :: "addr \<Rightarrow> c_int \<Rightarrow> 'n \<Rightarrow> c_int \<times> 'n"
  pam_end :: "addr \<Rightarrow> c_int \<Rightarrow> 'n \<Rightarrow> c_int \<times> 'n"

text \<open>A call on the library as it is observed: its arguments and the status it returned.\<close>

datatype pam_call =
    is_Start: Start string string c_int addr
  | is_Authenticate: Authenticate addr c_int c_int
  | is_End: End addr c_int c_int

record 'n session =
  native :: 'n
  seen :: "pam_call list"

definition PAM_START :: "'n libpam \<Rightarrow> string \<Rightarrow> string \<Rightarrow> PamConv \<Rightarrow> addr \<Rightarrow> 'n session \<Rightarrow> (c_int \<times> addr) \<times> 'n session" where
  "PAM_START lib service username cv handle s =
     (let ((retval, handle), n) = pam_start lib service username cv handle (native s)
      in ((retval, handle), \<lparr>native = n, seen = seen s @ [Start service username retval handle]\<rparr>))"

definition PAM_AUTHENTICATE :: "'n libpam \<Rightarrow> addr \<Rightarrow> c_int \<Rightarrow> 'n session \<Rightarrow> c_int \<times> 'n session" where
  "PAM_AUTHENTICATE lib handle flags s =
     (let (retval, n) = pam_authenticate lib handle flags (native s)
      in (retval, \<lparr>native = n, seen = seen s @ [Authenticate handle flags retval]\<rparr>))"

definition PAM_END :: "'n libpam \<Rightarrow> addr \<Rightarrow> c_int \<Rightarrow> 'n session \<Rightarrow> c_int \<times> 'n session" where
  "PAM_END lib handle status s =
     (let (e, n) = pam_end lib handle status (native s)
      in (e, \<lparr>native = n, seen = seen s @ [End handle status e]\<rparr>))"

definition authenticate :: "'n libpam \<Rightarrow> string \<Rightarrow> string \<Rightarrow> string \<Rightarrow> 'n session \<Rightarrow> bool \<times> 'n session" where
  "authenticate lib username password service s =
     (let handle = PamHandle;
          cv = \<lparr>conv = my_conv password, appdata_ptr = 0\<rparr>;
          ((retval, handle), s1) = PAM_START lib service username cv handle s
      in if retval \<noteq> 0 then
           (let (e, s2) = PAM_END lib handle retval s1 in (False, s2))
         else
           (let (retval, s2) = PAM_AUTHENTICATE lib handle 0 s1;
                (e, s3) = PAM_END lib handle retval s2
            in (retval = 0 \<and> e = 0, s3)))"

text \<open>The optional parameter: \<open>service='login'\<close>.\<close>

definition authenticate_login :: "'n libpam \<Rightarrow> string \<Rightarrow> string \<Rightarrow> 'n session \<Rightarrow> bool \<times> 'n session" where
  "authenticate_login lib username password s = authenticate lib username password ''login'' s"

section \<open>Reading the memory\<close>

text \<open>
  The PAM module hands in \<open>n_messages\<close> messages: reading \<open>messages[i].contents\<close> for
  the indices of \<open>range(n_messages)\<close> yields the structures \<open>msgs\<close>.
\<close>

definition message_array :: "memory \<Rightarrow> addr \<Rightarrow> c_int \<Rightarrow> PamMessage list \<Rightarrow> bool" where
  "message_array m messages n msgs \<longleftrightarrow>
     map (get_message m messages) (range_c_int n) = map Inr msgs"

definition echo_off :: "PamMessage \<Rightarrow> bool" where
  "echo_off x \<longleftrightarrow> msg_style x = PAM_PROMPT_ECHO_OFF"

text \<open>The response array the PAM module finds through \<open>p_response\<close> after the call.\<close>

definition responses_of :: "memory \<Rightarrow> addr \<Rightarrow> PamResponse list option" where
  "responses_of m p_response =
     (case lookup m p_response of
        Some (ResponsePtr a) \<Rightarrow> (case lookup m a of Some (Responses rs) \<Rightarrow> Some rs | _ \<Rightarrow> None)
      | _ \<Rightarrow> None)"

text \<open>The bytes a response points to; \<open>None\<close> for the NULL pointer.\<close>

definition text_of :: "memory \<Rightarrow> PamResponse \<Rightarrow> string option" where
  "text_of m r = (case lookup m (resp r) of Some (Chars bs) \<Rightarrow> Some bs | _ \<Rightarrow> None)"

text \<open>The calls on the C library made between two states.\<close>

definition calls_since :: "memory \<Rightarrow> memory \<Rightarrow> libc_call list" where
  "calls_since m m' = drop (length (calls m)) (calls m')"

text \<open>The calls on the PAM library made between two states of a session.\<close>

definition calls_during :: "'n session \<Rightarrow> 'n session \<Rightarrow> pam_call list" where
  "calls_during s s' = drop (length (seen s)) (seen s')"

text \<open>Whether the allocator returns NULL on the next request.\<close>

definition refused :: "memory \<Rightarrow> bool" where
  "refused m \<longleftrightarrow> (case oom m of [] \<Rightarrow> False | b # _ \<Rightarrow> b)"

text \<open>
  The objects \<open>my_conv\<close> has no assignment for: character buffers and the messages.
  \<open>frame m m'\<close>: memory has only grown and these objects are all as they were.
\<close>

definition readonly :: "obj \<Rightarrow> bool" where
  "readonly y = (case y of Responses _ \<Rightarrow> False | ResponsePtr _ \<Rightarrow> False | _ \<Rightarrow> True)"

definition frame :: "memory \<Rightarrow> memory \<Rightarrow> bool" where
  "frame m m' \<longleftrightarrow>
     length (heap m) \<le> length (heap m') \<and>
     (\<forall>c y. lookup m c = Some y \<longrightarrow> readonly y \<longrightarrow> lookup m' c = Some y)"

text \<open>One pass through the loop body at a password prompt, as a single state change.\<close>

definition answer :: "string \<Rightarrow> addr \<Rightarrow> PamResponse list \<Rightarrow> nat \<Rightarrow> memory \<Rightarrow> memory" where
  "answer pw a rs i m =
     store (snd (STRDUP pw m)) a (Responses (rs[i := \<lparr>resp = fst (STRDUP pw m), resp_retcode = 0\<rparr>]))"

section \<open>A PAM module to run against\<close>

text \<open>
  Memory as a PAM module prepares it for one conversation: the pointer array at address 1,
  a password prompt, an informational text and a second password prompt at 2, 3 and 4,
  their texts at 5 and 6, and the cell for the response array at 7.
\<close>

definition three_messages :: memory where
  "three_messages =
     \<lparr>heap = [MessagePtrs [2, 3, 4],
              Message \<lparr>msg_style = PAM_PROMPT_ECHO_OFF, msg = 5\<rparr>,
              Message \<lparr>msg_style = PAM_TEXT_INFO, msg = 6\<rparr>,
              Message \<lparr>msg_style = PAM_PROMPT_ECHO_OFF, msg = 5\<rparr>,
              Chars ''Password: '',
              Chars ''Last login: never'',
              ResponsePtr 0],
      oom = [], calls = []\<rparr>"

definition three_msgs :: "PamMessage list" where
  "three_msgs =
     [\<lparr>msg_style = PAM_PROMPT_ECHO_OFF, msg = 5\<rparr>,
      \<lparr>msg_style = PAM_TEXT_INFO, msg = 6\<rparr>,
      \<lparr>msg_style = PAM_PROMPT_ECHO_OFF, msg = 5\<rparr>]"

text \<open>
  A module that knows one service, \<open>login\<close>, and one password. It keeps the
  conversation structure given to \<open>pam_start\<close>; \<open>pam_authenticate\<close> calls it with the
  three messages and accepts when both prompts were answered with the password.
\<close>

record toy =
  mem :: memory
  kept :: "PamConv option"

definition toy_pam :: "string \<Rightarrow> toy libpam" where
  "toy_pam expected =
     \<lparr>pam_start = (\<lambda>service username cv handle n.
         if service = ''login'' then ((0, 1), n\<lparr>kept := Some cv\<rparr>) else ((3, handle), n)),
      pam_authenticate = (\<lambda>handle flags n.
         case kept n of
           None \<Rightarrow> (19, n)
         | Some cv \<Rightarrow>
             (case conv cv 3 1 7 (appdata_ptr cv) (mem n) of
                (Inl e, m') \<Rightarrow> (19, n\<lparr>mem := m'\<rparr>)
              | (Inr r, m') \<Rightarrow>
                  (if r = 0 \<and> map_option (map (text_of m')) (responses_of m' 7) =
                        Some [Some expected, None, Some expected]
                   then 0 else 7, n\<lparr>mem := m'\<rparr>))),
      pam_end = (\<lambda>handle status n. (0, n\<lparr>kept := None\<rparr>))\<rparr>"

definition fresh_session :: "toy session" where
  "fresh_session = \<lparr>native = \<lparr>mem = three_messages, kept = None\<rparr>, seen = []\<rparr>"

section \<open>Lemmas\<close>

subsection \<open>Memory\<close>

lemma frame_refl: "frame m m"
  by (simp add: frame_def)

lemma lookup_Some_bounds: "lookup m c = Some y \<Longrightarrow> c \<noteq> 0 \<and> c \<le> length (heap m)"
  by (auto simp: lookup_def split: if_splits)

lemma lookup_store:
  "a \<noteq> 0 \<Longrightarrow> a \<le> length (heap m) \<Longrightarrow>
   lookup (store m a x) c = (if c = a then Some x else lookup m c)"
  by (auto simp: lookup_def store_def nth_list_update)

lemma store_fields [simp]:
  "length (heap (store m a x)) = length (heap m)" "oom (store m a x) = oom m"
  "calls (store m a x) = calls m"
  by (simp_all add: store_def)

lemma lookup_append_old:
  "heap m1 = heap m @ xs \<Longrightarrow> c \<le> length (heap m) \<Longrightarrow> lookup m1 c = lookup m c"
  by (auto simp: lookup_def nth_append)

lemma lookup_append_new:
  "heap m1 = heap m @ [x] \<Longrightarrow> lookup m1 (Suc (length (heap m))) = Some x"
  by (simp add: lookup_def)

lemma frame_trans: "frame m m1 \<Longrightarrow> frame m1 m2 \<Longrightarrow> frame m m2"
  unfolding frame_def by (meson le_trans)

lemma allocate_fields:
  "calls (snd (allocate x m)) = calls m"
  "oom (snd (allocate x m)) = tl (oom m)"
  "fst (allocate x m) = (if refused m then 0 else Suc (length (heap m)))"
  "heap (snd (allocate x m)) = (if refused m then heap m else heap m @ [x])"
proof -
  show "calls (snd (allocate x m)) = calls m"
    by (cases "oom m"; cases "hd (oom m)"; simp add: allocate_def)
  show "oom (snd (allocate x m)) = tl (oom m)"
    by (cases "oom m"; cases "hd (oom m)"; simp add: allocate_def)
  show "fst (allocate x m) = (if refused m then 0 else Suc (length (heap m)))"
    by (cases "oom m"; cases "hd (oom m)"; simp add: allocate_def refused_def)
  show "heap (snd (allocate x m)) = (if refused m then heap m else heap m @ [x])"
    by (cases "oom m"; cases "hd (oom m)"; simp add: allocate_def refused_def)
qed

lemma STRDUP_fields:
  "calls (snd (STRDUP bs m)) = calls m @ [Strdup bs (fst (STRDUP bs m))]"
  "oom (snd (STRDUP bs m)) = tl (oom m)"
  "fst (STRDUP bs m) = (if refused m then 0 else Suc (length (heap m)))"
  "heap (snd (STRDUP bs m)) = (if refused m then heap m else heap m @ [Chars (c_string bs)])"
  by (simp_all add: STRDUP_def allocate_fields split_beta)

lemma CALLOC_fields:
  "calls (snd (CALLOC n m)) = calls m @ [Calloc n (fst (CALLOC n m))]"
  "oom (snd (CALLOC n m)) = tl (oom m)"
  "fst (CALLOC n m) = (if refused m then 0 else Suc (length (heap m)))"
  "heap (snd (CALLOC n m)) = (if refused m then heap m else heap m @ [Responses (replicate n zeroed)])"
  by (simp_all add: CALLOC_def allocate_fields split_beta)

lemma heap_grows_lookup:
  assumes "heap m1 = heap m @ xs" "lookup m c = Some y"
  shows "lookup m1 c = Some y"
proof -
  from assms(2) have "c \<le> length (heap m)" by (rule lookup_Some_bounds [THEN conjunct2])
  with assms(1) have "lookup m1 c = lookup m c" by (rule lookup_append_old)
  with assms(2) show ?thesis by simp
qed

lemma deref_Some: "lookup m p = Some y \<Longrightarrow> deref m p = Inr y"
  using lookup_Some_bounds [of m p y] by (simp add: deref_def)

lemma get_message_Inr:
  assumes "get_message m messages i = Inr x"
  obtains ps where "lookup m messages = Some (MessagePtrs ps)" "i < length ps"
    "lookup m (ps ! i) = Some (Message x)"
proof -
  from assms obtain y where y: "deref m messages = Inr y"
    by (cases "deref m messages") (simp_all add: get_message_def)
  with assms obtain ps where ps: "y = MessagePtrs ps"
    by (cases y) (simp_all add: get_message_def)
  from assms y ps have i: "i < length ps"
    by (simp add: get_message_def split: if_splits)
  with assms y ps obtain z where z: "deref m (ps ! i) = Inr z"
    by (cases "deref m (ps ! i)") (simp_all add: get_message_def)
  with assms y ps i have "z = Message x"
    by (cases z) (simp_all add: get_message_def)
  with y ps z have "lookup m messages = Some (MessagePtrs ps)" "lookup m (ps ! i) = Some (Message x)"
    by (simp_all add: deref_def split: if_splits option.splits)
  with i show thesis by (simp add: that)
qed

lemma get_message_frame:
  assumes "get_message m messages i = Inr x" "frame m m'"
  shows "get_message m' messages i = Inr x"
proof -
  from assms(1) obtain ps where ps: "lookup m messages = Some (MessagePtrs ps)"
    "i < length ps" "lookup m (ps ! i) = Some (Message x)"
    by (rule get_message_Inr)
  from ps(1) assms(2) have "lookup m' messages = Some (MessagePtrs ps)"
    by (simp add: frame_def readonly_def)
  moreover from ps(3) assms(2) have "lookup m' (ps ! i) = Some (Message x)"
    by (simp add: frame_def readonly_def)
  ultimately show ?thesis using ps(2)
    by (simp add: get_message_def deref_Some)
qed

lemma STRDUP_lookup:
  assumes "lookup m c = Some y"
  shows "lookup (snd (STRDUP bs m)) c = Some y"
proof -
  have "\<exists>xs. heap (snd (STRDUP bs m)) = heap m @ xs"
    by (simp add: STRDUP_fields)
  then obtain xs where "heap (snd (STRDUP bs m)) = heap m @ xs" ..
  then show ?thesis using assms by (rule heap_grows_lookup)
qed

lemma CALLOC_lookup:
  assumes "lookup m c = Some y"
  shows "lookup (snd (CALLOC n m)) c = Some y"
proof -
  have "\<exists>xs. heap (snd (CALLOC n m)) = heap m @ xs"
    by (simp add: CALLOC_fields)
  then obtain xs where "heap (snd (CALLOC n m)) = heap m @ xs" ..
  then show ?thesis using assms by (rule heap_grows_lookup)
qed

lemma set_response_ok:
  assumes "lookup m p = Some (ResponsePtr a)" "lookup m a = Some (Responses rs)" "i < length rs"
  shows "set_response f m p i = Inr (store m a (Responses (rs[i := f (rs ! i)])))"
  using assms by (simp add: set_response_def deref_Some)

lemma store_lookup_other:
  assumes "lookup m a = Some x" "lookup m c = Some y" "c \<noteq> a"
  shows "lookup (store m a x') c = Some y"
  using assms lookup_Some_bounds [of m a x] by (simp add: lookup_store)

lemma store_lookup_same:
  assumes "lookup m a = Some x"
  shows "lookup (store m a x') a = Some x'"
  using assms lookup_Some_bounds [of m a x] by (simp add: lookup_store)

lemma store_store:
  "store (store m a x) a y = store m a y"
  by (simp add: store_def)

lemma store_frame:
  assumes "lookup m a = Some x" "\<not> readonly x"
  shows "frame m (store m a x')"
  unfolding frame_def
proof (intro conjI allI impI)
  show "length (heap m) \<le> length (heap (store m a x'))" by simp
next
  fix c y assume c: "lookup m c = Some y" "readonly y"
  with assms have "c \<noteq> a" by auto
  with assms(1) c(1) show "lookup (store m a x') c = Some y" by (rule store_lookup_other)
qed

lemma STRDUP_frame: "frame m (snd (STRDUP bs m))"
  unfolding frame_def
  by (cases "refused m") (simp_all add: STRDUP_lookup STRDUP_fields)

lemma CALLOC_frame: "frame m (snd (CALLOC n m))"
  unfolding frame_def
  by (cases "refused m") (simp_all add: CALLOC_lookup CALLOC_fields)

subsection \<open>The loop body\<close>

lemma response_overwritten:
  "(r :: PamResponse)\<lparr>resp := b, resp_retcode := c\<rparr> = \<lparr>resp = b, resp_retcode = c\<rparr>"
  by (cases r) simp

lemma conv_loop_answer:
  assumes x: "get_message m messages i = Inr x" "msg_style x = PAM_PROMPT_ECHO_OFF"
    and p: "lookup m p = Some (ResponsePtr a)"
    and a: "lookup m a = Some (Responses rs)"
    and i: "i < length rs"
  shows "conv_loop pw messages p (i # todo) m = conv_loop pw messages p todo (answer pw a rs i m)"
proof -
  define b where "b = fst (STRDUP pw m)"
  define m1 where "m1 = snd (STRDUP pw m)"
  define rs1 where "rs1 = rs[i := (rs ! i)\<lparr>resp := b\<rparr>]"
  define m2 where "m2 = store m1 a (Responses rs1)"
  have bm: "STRDUP pw m = (b, m1)" by (simp add: b_def m1_def)
  have p1: "lookup m1 p = Some (ResponsePtr a)" and a1: "lookup m1 a = Some (Responses rs)"
    unfolding m1_def using p a by (simp_all add: STRDUP_lookup)
  from p1 a1 i have s1: "set_response (\<lambda>r. r\<lparr>resp := b\<rparr>) m1 p i = Inr m2"
    unfolding m2_def rs1_def by (rule set_response_ok)
  from p1 a1 have "p \<noteq> a" by auto
  with a1 p1 have p2: "lookup m2 p = Some (ResponsePtr a)"
    unfolding m2_def by (rule store_lookup_other)
  from a1 have a2: "lookup m2 a = Some (Responses rs1)"
    unfolding m2_def by (rule store_lookup_same)
  from i have i1: "i < length rs1" by (simp add: rs1_def)
  from p2 a2 i1
  have s2: "set_response (\<lambda>r. r\<lparr>resp_retcode := 0\<rparr>) m2 p i =
              Inr (store m2 a (Responses (rs1[i := (rs1 ! i)\<lparr>resp_retcode := 0\<rparr>])))"
    by (rule set_response_ok)
  have "rs1[i := (rs1 ! i)\<lparr>resp_retcode := 0\<rparr>] = rs[i := \<lparr>resp = b, resp_retcode = 0\<rparr>]"
    using i by (simp add: rs1_def response_overwritten)
  then have "store m2 a (Responses (rs1[i := (rs1 ! i)\<lparr>resp_retcode := 0\<rparr>])) = answer pw a rs i m"
    by (simp add: m2_def store_store answer_def b_def m1_def)
  with s2 have s2': "set_response (\<lambda>r. r\<lparr>resp_retcode := 0\<rparr>) m2 p i = Inr (answer pw a rs i m)"
    by simp
  show ?thesis
    using x bm s1 s2' by simp
qed

lemma answer_props:
  assumes p: "lookup m p = Some (ResponsePtr a)"
    and a: "lookup m a = Some (Responses rs)"
  shows "lookup (answer pw a rs i m) p = Some (ResponsePtr a)"
    and "lookup (answer pw a rs i m) a = Some (Responses (rs[i := \<lparr>resp = fst (STRDUP pw m), resp_retcode = 0\<rparr>]))"
    and "frame m (answer pw a rs i m)"
    and "calls (answer pw a rs i m) = calls m @ [Strdup pw (fst (STRDUP pw m))]"
    and "oom (answer pw a rs i m) = tl (oom m)"
    and "length (heap m) \<le> length (heap (answer pw a rs i m))"
    and "fst (STRDUP pw m) \<noteq> 0 \<Longrightarrow>
           fst (STRDUP pw m) = length (heap (answer pw a rs i m)) \<and>
           length (heap m) < fst (STRDUP pw m) \<and>
           lookup (answer pw a rs i m) (fst (STRDUP pw m)) = Some (Chars (c_string pw))"
    and "\<not> refused m \<Longrightarrow> fst (STRDUP pw m) \<noteq> 0"
proof -
  let ?m1 = "snd (STRDUP pw m)"
  have p1: "lookup ?m1 p = Some (ResponsePtr a)" and a1: "lookup ?m1 a = Some (Responses rs)"
    using p a by (simp_all add: STRDUP_lookup)
  from p1 a1 have "p \<noteq> a" by auto
  with a1 p1 show "lookup (answer pw a rs i m) p = Some (ResponsePtr a)"
    unfolding answer_def by (rule store_lookup_other)
  from a1 show "lookup (answer pw a rs i m) a = Some (Responses (rs[i := \<lparr>resp = fst (STRDUP pw m), resp_retcode = 0\<rparr>]))"
    unfolding answer_def by (rule store_lookup_same)
  have "frame ?m1 (answer pw a rs i m)"
    unfolding answer_def using a1 by (rule store_frame) (simp add: readonly_def)
  with STRDUP_frame show "frame m (answer pw a rs i m)" by (rule frame_trans)
  show "calls (answer pw a rs i m) = calls m @ [Strdup pw (fst (STRDUP pw m))]"
    by (simp add: answer_def STRDUP_fields)
  show "oom (answer pw a rs i m) = tl (oom m)"
    by (simp add: answer_def STRDUP_fields)
  show "length (heap m) \<le> length (heap (answer pw a rs i m))"
    by (simp add: answer_def STRDUP_fields)
  show "\<not> refused m \<Longrightarrow> fst (STRDUP pw m) \<noteq> 0"
    by (simp add: STRDUP_fields)
  show "fst (STRDUP pw m) = length (heap (answer pw a rs i m)) \<and>
        length (heap m) < fst (STRDUP pw m) \<and>
        lookup (answer pw a rs i m) (fst (STRDUP pw m)) = Some (Chars (c_string pw))"
    if nz: "fst (STRDUP pw m) \<noteq> 0"
  proof -
    from nz have nr: "\<not> refused m" by (auto simp: STRDUP_fields)
    then have b: "fst (STRDUP pw m) = Suc (length (heap m))"
      and h: "heap ?m1 = heap m @ [Chars (c_string pw)]"
      by (simp_all add: STRDUP_fields)
    from h have new: "lookup ?m1 (Suc (length (heap m))) = Some (Chars (c_string pw))"
      by (rule lookup_append_new)
    from a have "a \<le> length (heap m)" by (rule lookup_Some_bounds [THEN conjunct2])
    then have "Suc (length (heap m)) \<noteq> a" by simp
    with a1 new have "lookup (answer pw a rs i m) (Suc (length (heap m))) = Some (Chars (c_string pw))"
      unfolding answer_def by (rule store_lookup_other)
    with b h show ?thesis by (simp add: answer_def)
  qed
qed

subsection \<open>The loop\<close>

lemma conv_loop_effect:
  assumes "lookup m p = Some (ResponsePtr a)" "lookup m a = Some (Responses rs)"
    "distinct todo" "\<forall>i\<in>set todo. i < length rs \<and> get_message m messages i = Inr (msgs i)"
  shows "\<exists>m' rs' bs.
     conv_loop pw messages p todo m = (None, m') \<and>
     lookup m' p = Some (ResponsePtr a) \<and> lookup m' a = Some (Responses rs') \<and>
     length rs' = length rs \<and> frame m m' \<and>
     calls m' = calls m @ map (Strdup pw) bs \<and>
     map ((!) rs') (filter (\<lambda>i. echo_off (msgs i)) todo) = map (\<lambda>b. \<lparr>resp = b, resp_retcode = 0\<rparr>) bs \<and>
     (\<forall>i<length rs. \<not> (i \<in> set todo \<and> echo_off (msgs i)) \<longrightarrow> rs' ! i = rs ! i) \<and>
     (\<forall>b\<in>set bs. b = 0 \<or> (length (heap m) < b \<and> lookup m' b = Some (Chars (c_string pw)))) \<and>
     distinct (filter (\<lambda>b. b \<noteq> 0) bs) \<and>
     (True \<notin> set (oom m) \<longrightarrow> 0 \<notin> set bs)"
  using assms
proof (induction todo arbitrary: m rs)
  case Nil
  have "conv_loop pw messages p [] m = (None, m) \<and>
     lookup m p = Some (ResponsePtr a) \<and> lookup m a = Some (Responses rs) \<and>
     length rs = length rs \<and> frame m m \<and>
     calls m = calls m @ map (Strdup pw) [] \<and>
     map ((!) rs) (filter (\<lambda>i. echo_off (msgs i)) []) = map (\<lambda>b. \<lparr>resp = b, resp_retcode = 0\<rparr>) [] \<and>
     (\<forall>i<length rs. \<not> (i \<in> set [] \<and> echo_off (msgs i)) \<longrightarrow> rs ! i = rs ! i) \<and>
     (\<forall>b\<in>set []. b = 0 \<or> (length (heap m) < b \<and> lookup m b = Some (Chars (c_string pw)))) \<and>
     distinct (filter (\<lambda>b. b \<noteq> 0) ([] :: addr list)) \<and>
     (True \<notin> set (oom m) \<longrightarrow> 0 \<notin> set ([] :: addr list))"
    using Nil by (simp add: frame_refl)
  then show ?case by blast
next
  case (Cons i todo)
  from Cons.prems have i: "i < length rs" and gi: "get_message m messages i = Inr (msgs i)"
    and ni: "i \<notin> set todo" and d: "distinct todo"
    and rest: "\<forall>j\<in>set todo. j < length rs \<and> get_message m messages j = Inr (msgs j)"
    by simp_all
  note p = Cons.prems(1) and a = Cons.prems(2)
  show ?case
  proof (cases "echo_off (msgs i)")
    case False
    with gi have eq: "conv_loop pw messages p (i # todo) m = conv_loop pw messages p todo m"
      by (simp add: echo_off_def)
    from Cons.IH [OF p a d rest] obtain m' rs' bs where
      r: "conv_loop pw messages p todo m = (None, m')"
      and p': "lookup m' p = Some (ResponsePtr a)" and a': "lookup m' a = Some (Responses rs')"
      and len: "length rs' = length rs" and fr: "frame m m'"
      and cl: "calls m' = calls m @ map (Strdup pw) bs"
      and slots: "map ((!) rs') (filter (\<lambda>i. echo_off (msgs i)) todo) = map (\<lambda>b. \<lparr>resp = b, resp_retcode = 0\<rparr>) bs"
      and others: "\<forall>i<length rs. \<not> (i \<in> set todo \<and> echo_off (msgs i)) \<longrightarrow> rs' ! i = rs ! i"
      and bufs: "\<forall>b\<in>set bs. b = 0 \<or> (length (heap m) < b \<and> lookup m' b = Some (Chars (c_string pw)))"
      and dis: "distinct (filter (\<lambda>b. b \<noteq> 0) bs)"
      and nz: "True \<notin> set (oom m) \<longrightarrow> 0 \<notin> set bs"
      by blast
    from slots False
    have slots': "map ((!) rs') (filter (\<lambda>i. echo_off (msgs i)) (i # todo)) = map (\<lambda>b. \<lparr>resp = b, resp_retcode = 0\<rparr>) bs"
      by simp
    from others
    have others': "\<forall>j<length rs. \<not> (j \<in> set (i # todo) \<and> echo_off (msgs j)) \<longrightarrow> rs' ! j = rs ! j"
      by simp
    from eq r have r': "conv_loop pw messages p (i # todo) m = (None, m')" by simp
    from r' p' a' len fr cl slots' others' bufs dis nz show ?thesis by blast
  next
    case True
    define b where "b = fst (STRDUP pw m)"
    define m3 where "m3 = answer pw a rs i m"
    define rs3 where "rs3 = rs[i := \<lparr>resp = b, resp_retcode = 0\<rparr>]"
    from gi True p a i
    have eq: "conv_loop pw messages p (i # todo) m = conv_loop pw messages p todo m3"
      unfolding m3_def echo_off_def by (rule conv_loop_answer)
    note ap = answer_props [OF p a]
    have p3: "lookup m3 p = Some (ResponsePtr a)" unfolding m3_def by (rule ap(1))
    have a3: "lookup m3 a = Some (Responses rs3)" unfolding m3_def rs3_def b_def by (rule ap(2))
    have fr3: "frame m m3" unfolding m3_def by (rule ap(3))
    have cl3: "calls m3 = calls m @ [Strdup pw b]" unfolding m3_def b_def by (rule ap(4))
    have oom3: "oom m3 = tl (oom m)" unfolding m3_def by (rule ap(5))
    have grow3: "length (heap m) \<le> length (heap m3)" unfolding m3_def by (rule ap(6))
    have new3: "b = length (heap m3) \<and> length (heap m) < b \<and> lookup m3 b = Some (Chars (c_string pw))"
      if "b \<noteq> 0"
      using that unfolding m3_def b_def by (rule ap(7))
    have ok3: "b \<noteq> 0" if "\<not> refused m"
      using that unfolding b_def by (rule ap(8))
    have rest3: "\<forall>j\<in>set todo. j < length rs3 \<and> get_message m3 messages j = Inr (msgs j)"
    proof
      fix j assume j: "j \<in> set todo"
      with rest have "j < length rs" and g: "get_message m messages j = Inr (msgs j)" by simp_all
      from g fr3 have "get_message m3 messages j = Inr (msgs j)" by (rule get_message_frame)
      with \<open>j < length rs\<close> show "j < length rs3 \<and> get_message m3 messages j = Inr (msgs j)"
        by (simp add: rs3_def)
    qed
    from Cons.IH [OF p3 a3 d rest3] obtain m' rs' bs where
      r: "conv_loop pw messages p todo m3 = (None, m')"
      and p': "lookup m' p = Some (ResponsePtr a)" and a': "lookup m' a = Some (Responses rs')"
      and len: "length rs' = length rs3" and fr: "frame m3 m'"
      and cl: "calls m' = calls m3 @ map (Strdup pw) bs"
      and slots: "map ((!) rs') (filter (\<lambda>i. echo_off (msgs i)) todo) = map (\<lambda>b. \<lparr>resp = b, resp_retcode = 0\<rparr>) bs"
      and others: "\<forall>i<length rs3. \<not> (i \<in> set todo \<and> echo_off (msgs i)) \<longrightarrow> rs' ! i = rs3 ! i"
      and bufs: "\<forall>b\<in>set bs. b = 0 \<or> (length (heap m3) < b \<and> lookup m' b = Some (Chars (c_string pw)))"
      and dis: "distinct (filter (\<lambda>b. b \<noteq> 0) bs)"
      and nz: "True \<notin> set (oom m3) \<longrightarrow> 0 \<notin> set bs"
      by blast
    have len3: "length rs3 = length rs" by (simp add: rs3_def)
    from eq r have c1: "conv_loop pw messages p (i # todo) m = (None, m')" by simp
    from len len3 have c4: "length rs' = length rs" by simp
    from fr3 fr have c5: "frame m m'" by (rule frame_trans)
    from cl cl3 have c6: "calls m' = calls m @ map (Strdup pw) (b # bs)" by simp
    from others i ni len3 have "rs' ! i = rs3 ! i" by simp
    with i have head: "rs' ! i = \<lparr>resp = b, resp_retcode = 0\<rparr>" by (simp add: rs3_def)
    with slots True
    have c7: "map ((!) rs') (filter (\<lambda>i. echo_off (msgs i)) (i # todo)) = map (\<lambda>b. \<lparr>resp = b, resp_retcode = 0\<rparr>) (b # bs)"
      by simp
    have c8: "\<forall>j<length rs. \<not> (j \<in> set (i # todo) \<and> echo_off (msgs j)) \<longrightarrow> rs' ! j = rs ! j"
    proof (intro allI impI)
      fix j assume j: "j < length rs" "\<not> (j \<in> set (i # todo) \<and> echo_off (msgs j))"
      with True have "j \<noteq> i" by auto
      moreover from j others len3 have "rs' ! j = rs3 ! j" by auto
      ultimately show "rs' ! j = rs ! j" by (simp add: rs3_def)
    qed
    have c9: "\<forall>c\<in>set (b # bs). c = 0 \<or> (length (heap m) < c \<and> lookup m' c = Some (Chars (c_string pw)))"
    proof
      fix c assume "c \<in> set (b # bs)"
      then consider "c = b" | "c \<in> set bs" by auto
      then show "c = 0 \<or> (length (heap m) < c \<and> lookup m' c = Some (Chars (c_string pw)))"
      proof cases
        case 1
        show ?thesis
        proof (cases "b = 0")
          case True with 1 show ?thesis by simp
        next
          case False
          from new3 [OF False] have "length (heap m) < b" "lookup m3 b = Some (Chars (c_string pw))"
            by blast+
          moreover from this(2) fr have "lookup m' b = Some (Chars (c_string pw))"
            by (simp add: frame_def readonly_def)
          ultimately show ?thesis using 1 by simp
        qed
      next
        case 2
        with bufs have "c = 0 \<or> (length (heap m3) < c \<and> lookup m' c = Some (Chars (c_string pw)))"
          by simp
        with grow3 show ?thesis by auto
      qed
    qed
    have c10: "distinct (filter (\<lambda>b. b \<noteq> 0) (b # bs))"
    proof (cases "b = 0")
      case True with dis show ?thesis by simp
    next
      case False
      from new3 [OF False] have "b = length (heap m3)" by blast
      with bufs False have "b \<notin> set bs" by auto
      with dis show ?thesis by simp
    qed
    have c11: "True \<notin> set (oom m) \<longrightarrow> 0 \<notin> set (b # bs)"
    proof
      assume t: "True \<notin> set (oom m)"
      then have "\<not> refused m" by (cases "oom m") (auto simp: refused_def)
      then have "b \<noteq> 0" by (rule ok3)
      moreover from t have "True \<notin> set (oom m3)"
        by (cases "oom m") (simp_all add: oom3)
      with nz have "0 \<notin> set bs" by simp
      ultimately show "0 \<notin> set (b # bs)" by simp
    qed
    from c1 p' a' c4 c5 c6 c7 c8 c9 c10 c11 show ?thesis by blast
  qed
qed

subsection \<open>Signed and unsigned count\<close>

lemma sint_le_uint: "sint (n :: c_int) \<le> uint n"
proof -
  have "- (2 ^ 31) \<le> (0::int)" by simp
  also have "0 \<le> uint n" by simp
  finally have "signed_take_bit 31 (uint n) \<le> uint n"
    by (simp only: signed_take_bit_int_less_eq_self_iff)
  moreover have "sint n = signed_take_bit 31 (uint n)"
    using sint_uint [of n] by simp
  ultimately show ?thesis by simp
qed

lemma range_within_block: "nat (sint (n :: c_int)) \<le> unat n"
proof -
  have "nat (sint n) \<le> nat (uint n)" using sint_le_uint [of n] by (rule nat_mono)
  then show ?thesis by (simp only: unat_eq_nat_uint)
qed

lemma unat_nonneg_c_int:
  assumes "0 \<le> sint (n :: c_int)"
  shows "unat n = nat (sint n)"
proof -
  have "sint n < 2 ^ 32" using sint_lt [of n] by simp
  with assms have "take_bit 32 (sint n) = sint n"
    by (simp only: take_bit_int_eq_self)
  moreover have "uint n = take_bit 32 (sint n)"
    using uint_sint [of n] by simp
  ultimately show ?thesis by (simp only: unat_eq_nat_uint)
qed

subsection \<open>The whole call\<close>

lemma set_response_ptr_ok:
  assumes "lookup m p = Some (ResponsePtr old)"
  shows "set_response_ptr m p a = Inr (store m p (ResponsePtr a))"
  using assms by (simp add: set_response_ptr_def deref_Some)

lemma my_conv_served:
  assumes p: "lookup m p = Some (ResponsePtr old)"
    and nr: "\<not> refused m"
    and msgs: "\<forall>i<nat (sint n). get_message m messages i = Inr (msgs i)"
  shows "\<exists>m' rs bs.
     my_conv pw n messages p app m = (Inr 0, m') \<and>
     lookup m' p = Some (ResponsePtr (Suc (length (heap m)))) \<and>
     lookup m' (Suc (length (heap m))) = Some (Responses rs) \<and>
     length rs = unat n \<and> frame m m' \<and>
     calls m' = calls m @ Calloc (unat n) (Suc (length (heap m))) # map (Strdup pw) bs \<and>
     map ((!) rs) (filter (\<lambda>i. echo_off (msgs i)) [0..<nat (sint n)]) =
       map (\<lambda>b. \<lparr>resp = b, resp_retcode = 0\<rparr>) bs \<and>
     (\<forall>i<unat n. \<not> (i < nat (sint n) \<and> echo_off (msgs i)) \<longrightarrow> rs ! i = zeroed) \<and>
     (\<forall>b\<in>set bs. b = 0 \<or> (Suc (length (heap m)) < b \<and> lookup m' b = Some (Chars (c_string pw)))) \<and>
     distinct (filter (\<lambda>b. b \<noteq> 0) bs) \<and>
     (True \<notin> set (oom m) \<longrightarrow> 0 \<notin> set bs)"
proof -
  define a where "a = Suc (length (heap m))"
  define m1 where "m1 = snd (CALLOC (unat n) m)"
  define m2 where "m2 = store m1 p (ResponsePtr a)"
  define rs0 where "rs0 = replicate (unat n) zeroed"
  from nr have fa: "fst (CALLOC (unat n) m) = a"
    and h1: "heap m1 = heap m @ [Responses rs0]"
    by (simp_all add: CALLOC_fields a_def m1_def rs0_def)
  have c1: "calls m1 = calls m @ [Calloc (unat n) a]"
    using fa by (simp add: m1_def CALLOC_fields)
  have o1: "oom m1 = tl (oom m)" by (simp add: m1_def CALLOC_fields)
  from fa have cm: "CALLOC (unat n) m = (a, m1)" by (simp add: m1_def prod_eq_iff)
  from p have p1: "lookup m1 p = Some (ResponsePtr old)"
    unfolding m1_def by (rule CALLOC_lookup)
  from h1 have a1: "lookup m1 a = Some (Responses rs0)"
    unfolding a_def by (rule lookup_append_new)
  from p1 have sp: "set_response_ptr m1 p a = Inr m2"
    unfolding m2_def by (rule set_response_ptr_ok)
  from p1 a1 have "a \<noteq> p" by auto
  with p1 a1 have a2: "lookup m2 a = Some (Responses rs0)"
    unfolding m2_def by (rule store_lookup_other)
  from p1 have p2: "lookup m2 p = Some (ResponsePtr a)"
    unfolding m2_def by (rule store_lookup_same)
  have "frame m m1" unfolding m1_def by (rule CALLOC_frame)
  moreover have "frame m1 m2" unfolding m2_def using p1 by (rule store_frame) (simp add: readonly_def)
  ultimately have fr2: "frame m m2" by (rule frame_trans)
  have todo: "\<forall>i\<in>set [0..<nat (sint n)]. i < length rs0 \<and> get_message m2 messages i = Inr (msgs i)"
  proof
    fix i assume "i \<in> set [0..<nat (sint n)]"
    then have i: "i < nat (sint n)" by simp
    with msgs have "get_message m messages i = Inr (msgs i)" by simp
    then have "get_message m2 messages i = Inr (msgs i)" using fr2 by (rule get_message_frame)
    moreover from i range_within_block [of n] have "i < length rs0" by (simp add: rs0_def)
    ultimately show "i < length rs0 \<and> get_message m2 messages i = Inr (msgs i)" by simp
  qed
  have d: "distinct [0..<nat (sint n)]" by simp
  from conv_loop_effect [OF p2 a2 d todo, of pw] obtain m' rs bs where
    r: "conv_loop pw messages p [0..<nat (sint n)] m2 = (None, m')"
    and p': "lookup m' p = Some (ResponsePtr a)" and a': "lookup m' a = Some (Responses rs)"
    and len: "length rs = length rs0" and fr: "frame m2 m'"
    and cl: "calls m' = calls m2 @ map (Strdup pw) bs"
    and slots: "map ((!) rs) (filter (\<lambda>i. echo_off (msgs i)) [0..<nat (sint n)]) = map (\<lambda>b. \<lparr>resp = b, resp_retcode = 0\<rparr>) bs"
    and others: "\<forall>i<length rs0. \<not> (i \<in> set [0..<nat (sint n)] \<and> echo_off (msgs i)) \<longrightarrow> rs ! i = rs0 ! i"
    and bufs: "\<forall>b\<in>set bs. b = 0 \<or> (length (heap m2) < b \<and> lookup m' b = Some (Chars (c_string pw)))"
    and dis: "distinct (filter (\<lambda>b. b \<noteq> 0) bs)"
    and nz: "True \<notin> set (oom m2) \<longrightarrow> 0 \<notin> set bs"
    by blast
  from cm sp r have g1: "my_conv pw n messages p app m = (Inr 0, m')"
    by (simp add: my_conv_def range_c_int_def)
  from len have g4: "length rs = unat n" by (simp add: rs0_def)
  from fr2 fr have g5: "frame m m'" by (rule frame_trans)
  from cl c1 have g6: "calls m' = calls m @ Calloc (unat n) a # map (Strdup pw) bs"
    by (simp add: m2_def)
  from others have g8: "\<forall>i<unat n. \<not> (i < nat (sint n) \<and> echo_off (msgs i)) \<longrightarrow> rs ! i = zeroed"
    by (simp add: rs0_def)
  have "length (heap m2) = a" by (simp add: m2_def h1 a_def)
  with bufs have g9: "\<forall>b\<in>set bs. b = 0 \<or> (a < b \<and> lookup m' b = Some (Chars (c_string pw)))"
    by simp
  have "True \<notin> set (oom m) \<Longrightarrow> True \<notin> set (oom m2)"
    by (cases "oom m") (simp_all add: m2_def o1)
  with nz have g11: "True \<notin> set (oom m) \<longrightarrow> 0 \<notin> set bs" by blast
  from g1 p' a' g4 g5 g6 slots g8 g9 dis g11 show ?thesis
    unfolding a_def by blast
qed

lemma deref_Inr: "deref m p = Inr y \<Longrightarrow> lookup m p = Some y"
  by (simp add: deref_def split: if_splits option.splits)

lemma set_response_frame:
  assumes "set_response f m p i = Inr m'"
  shows "frame m m'"
proof -
  from assms obtain y where y: "deref m p = Inr y"
    by (cases "deref m p") (simp_all add: set_response_def)
  with assms obtain a where a: "y = ResponsePtr a"
    by (cases y) (simp_all add: set_response_def)
  with assms y obtain z where z: "deref m a = Inr z"
    by (cases "deref m a") (simp_all add: set_response_def)
  with assms y a obtain rs where rs: "z = Responses rs"
    by (cases z) (simp_all add: set_response_def)
  with assms y a z have m': "m' = store m a (Responses (rs[i := f (rs ! i)]))"
    by (simp add: set_response_def split: if_splits)
  from z rs have "lookup m a = Some (Responses rs)" by (simp add: deref_Inr)
  then show ?thesis unfolding m' by (rule store_frame) (simp add: readonly_def)
qed

lemma set_response_ptr_frame:
  assumes "set_response_ptr m p a = Inr m'"
  shows "frame m m'"
proof -
  from assms obtain y where y: "deref m p = Inr y"
    by (cases "deref m p") (simp_all add: set_response_ptr_def)
  with assms obtain old where old: "y = ResponsePtr old"
    by (cases y) (simp_all add: set_response_ptr_def)
  with assms y have m': "m' = store m p (ResponsePtr a)"
    by (simp add: set_response_ptr_def)
  from y old have "lookup m p = Some (ResponsePtr old)" by (simp add: deref_Inr)
  then show ?thesis unfolding m' by (rule store_frame) (simp add: readonly_def)
qed

lemma conv_loop_frame: "frame m (snd (conv_loop pw messages p todo m))"
proof (induction todo arbitrary: m)
  case Nil
  show ?case by (simp add: frame_refl)
next
  case (Cons i todo)
  show ?case
  proof (cases "get_message m messages i")
    case (Inl e)
    then show ?thesis by (simp add: frame_refl)
  next
    case (Inr x)
    show ?thesis
    proof (cases "msg_style x = PAM_PROMPT_ECHO_OFF")
      case False
      with Inr Cons.IH [of m] show ?thesis by simp
    next
      case True
      define b where "b = fst (STRDUP pw m)"
      define m1 where "m1 = snd (STRDUP pw m)"
      have bm: "STRDUP pw m = (b, m1)" by (simp add: b_def m1_def)
      have f1: "frame m m1" unfolding m1_def by (rule STRDUP_frame)
      show ?thesis
      proof (cases "set_response (\<lambda>r. r\<lparr>resp := b\<rparr>) m1 p i")
        case (Inl e)
        with Inr True bm f1 show ?thesis by simp
      next
        case s1: (Inr m2)
        then have "frame m1 m2" by (rule set_response_frame)
        with f1 have f2: "frame m m2" by (rule frame_trans)
        show ?thesis
        proof (cases "set_response (\<lambda>r. r\<lparr>resp_retcode := 0\<rparr>) m2 p i")
          case (Inl e)
          with Inr True bm s1 f2 show ?thesis by simp
        next
          case s2: (Inr m3)
          then have "frame m2 m3" by (rule set_response_frame)
          with f2 have "frame m m3" by (rule frame_trans)
          then have "frame m (snd (conv_loop pw messages p todo m3))"
            using Cons.IH [of m3] by (rule frame_trans)
          with Inr True bm s1 s2 show ?thesis by simp
        qed
      qed
    qed
  qed
qed

lemma my_conv_frame: "frame m (snd (my_conv pw n messages p app m))"
proof -
  define a where "a = fst (CALLOC (unat n) m)"
  define m1 where "m1 = snd (CALLOC (unat n) m)"
  have am: "CALLOC (unat n) m = (a, m1)" by (simp add: a_def m1_def)
  have f1: "frame m m1" unfolding m1_def by (rule CALLOC_frame)
  show ?thesis
  proof (cases "set_response_ptr m1 p a")
    case (Inl e)
    with am f1 show ?thesis by (simp add: my_conv_def)
  next
    case (Inr m2)
    then have "frame m1 m2" by (rule set_response_ptr_frame)
    with f1 have "frame m m2" by (rule frame_trans)
    then have fr: "frame m (snd (conv_loop pw messages p (range_c_int n) m2))"
      using conv_loop_frame by (rule frame_trans)
    obtain e m3 where out: "conv_loop pw messages p (range_c_int n) m2 = (e, m3)"
      by (cases "conv_loop pw messages p (range_c_int n) m2")
    with fr have "frame m m3" by simp
    with am Inr out show ?thesis by (cases e) (simp_all add: my_conv_def)
  qed
qed

lemma conv_loop_null:
  assumes "lookup m p = Some (ResponsePtr 0)"
    and "\<forall>i\<in>set todo. get_message m messages i = Inr (msgs i)"
  shows "fst (conv_loop pw messages p todo m) =
           (if \<exists>i\<in>set todo. echo_off (msgs i) then Some ValueError else None) \<and>
         lookup (snd (conv_loop pw messages p todo m)) p = Some (ResponsePtr 0) \<and>
         (\<exists>bs. calls (snd (conv_loop pw messages p todo m)) = calls m @ map (Strdup pw) bs)"
  using assms
proof (induction todo)
  case Nil
  then show ?case by simp
next
  case (Cons i todo)
  from Cons.prems have gi: "get_message m messages i = Inr (msgs i)" by simp
  show ?case
  proof (cases "echo_off (msgs i)")
    case False
    with gi have "conv_loop pw messages p (i # todo) m = conv_loop pw messages p todo m"
      by (simp add: echo_off_def)
    with Cons False show ?thesis by simp
  next
    case True
    define b where "b = fst (STRDUP pw m)"
    define m1 where "m1 = snd (STRDUP pw m)"
    have bm: "STRDUP pw m = (b, m1)" by (simp add: b_def m1_def)
    from Cons.prems(1) have p1: "lookup m1 p = Some (ResponsePtr 0)"
      unfolding m1_def by (rule STRDUP_lookup)
    then have "set_response (\<lambda>r. r\<lparr>resp := b\<rparr>) m1 p i = Inl ValueError"
      by (simp add: set_response_def deref_Some) (simp add: deref_def)
    with gi True bm have eq: "conv_loop pw messages p (i # todo) m = (Some ValueError, m1)"
      by (simp add: echo_off_def)
    have "calls m1 = calls m @ map (Strdup pw) [b]"
      by (simp add: m1_def b_def STRDUP_fields)
    then have "\<exists>bs. calls m1 = calls m @ map (Strdup pw) bs" ..
    with True p1 show ?thesis unfolding eq by simp
  qed
qed

lemma my_conv_refused:
  assumes p: "lookup m p = Some (ResponsePtr old)"
    and r: "refused m"
    and msgs: "\<forall>i<nat (sint n). get_message m messages i = Inr (msgs i)"
  shows "fst (my_conv pw n messages p app m) =
           (if \<exists>i<nat (sint n). echo_off (msgs i) then Inl ValueError else Inr 0) \<and>
         lookup (snd (my_conv pw n messages p app m)) p = Some (ResponsePtr 0) \<and>
         (\<exists>bs. calls (snd (my_conv pw n messages p app m)) =
                  calls m @ Calloc (unat n) 0 # map (Strdup pw) bs)"
proof -
  define m1 where "m1 = snd (CALLOC (unat n) m)"
  define m2 where "m2 = store m1 p (ResponsePtr 0)"
  from r have cm: "CALLOC (unat n) m = (0, m1)"
    by (simp add: m1_def prod_eq_iff CALLOC_fields)
  from r have c1: "calls m1 = calls m @ [Calloc (unat n) 0]"
    by (simp add: m1_def CALLOC_fields)
  from p have p1: "lookup m1 p = Some (ResponsePtr old)"
    unfolding m1_def by (rule CALLOC_lookup)
  then have sp: "set_response_ptr m1 p 0 = Inr m2"
    unfolding m2_def by (rule set_response_ptr_ok)
  from p1 have p2: "lookup m2 p = Some (ResponsePtr 0)"
    unfolding m2_def by (rule store_lookup_same)
  have "frame m m1" unfolding m1_def by (rule CALLOC_frame)
  moreover have "frame m1 m2" unfolding m2_def using p1 by (rule store_frame) (simp add: readonly_def)
  ultimately have fr2: "frame m m2" by (rule frame_trans)
  have todo: "\<forall>i\<in>set (range_c_int n). get_message m2 messages i = Inr (msgs i)"
  proof
    fix i assume "i \<in> set (range_c_int n)"
    with msgs have "get_message m messages i = Inr (msgs i)" by (simp add: range_c_int_def)
    then show "get_message m2 messages i = Inr (msgs i)" using fr2 by (rule get_message_frame)
  qed
  define out where "out = conv_loop pw messages p (range_c_int n) m2"
  from conv_loop_null [OF p2 todo, of pw, folded out_def] obtain bs where
    l1: "fst out = (if \<exists>i\<in>set (range_c_int n). echo_off (msgs i) then Some ValueError else None)"
    and l2: "lookup (snd out) p = Some (ResponsePtr 0)"
    and l3: "calls (snd out) = calls m2 @ map (Strdup pw) bs"
    by blast
  have mc: "my_conv pw n messages p app m =
          (case fst out of Some e \<Rightarrow> Inl e | None \<Rightarrow> Inr 0, snd out)"
    using cm sp by (simp add: my_conv_def out_def split: prod.splits option.splits)
  have ex: "(\<exists>i\<in>set (range_c_int n). echo_off (msgs i)) \<longleftrightarrow> (\<exists>i<nat (sint n). echo_off (msgs i))"
    by (auto simp: range_c_int_def)
  from l3 c1 have "calls (snd out) = calls m @ Calloc (unat n) 0 # map (Strdup pw) bs"
    by (simp add: m2_def)
  with mc l1 l2 ex show ?thesis by auto
qed

subsection \<open>Reading the memory, and the module to run against\<close>

lemma message_arrayD:
  assumes "message_array m messages n msgs"
  shows "length msgs = nat (sint n)"
    and "\<forall>i<nat (sint n). get_message m messages i = Inr (msgs ! i)"
proof -
  from assms have eq: "map (get_message m messages) [0..<nat (sint n)] = map Inr msgs"
    by (simp add: message_array_def range_c_int_def)
  then have "length (map (get_message m messages) [0..<nat (sint n)]) = length (map Inr msgs :: (failure + PamMessage) list)"
    by simp
  then show len: "length msgs = nat (sint n)" by simp
  show "\<forall>i<nat (sint n). get_message m messages i = Inr (msgs ! i)"
  proof (intro allI impI)
    fix i assume i: "i < nat (sint n)"
    from eq have "map (get_message m messages) [0..<nat (sint n)] ! i = (map Inr msgs :: (failure + PamMessage) list) ! i"
      by simp
    with i len show "get_message m messages i = Inr (msgs ! i)" by simp
  qed
qed

lemma calls_since_append: "calls m' = calls m @ xs \<Longrightarrow> calls_since m m' = xs"
  by (simp add: calls_since_def)



lemma responses_ofI:
  "lookup m p = Some (ResponsePtr a) \<Longrightarrow> lookup m a = Some (Responses rs) \<Longrightarrow>
   responses_of m p = Some rs"
  by (simp add: responses_of_def)

lemma three_messages_array: "message_array three_messages 1 3 three_msgs"
  by code_simp

lemma three_messages_out: "lookup three_messages 7 = Some (ResponsePtr 0)"
  by code_simp

lemma secret_call:
  "my_conv ''secret'' n 1 7 0 m = (fst (my_conv ''secret'' n 1 7 0 m), snd (my_conv ''secret'' n 1 7 0 m))"
  by simp

lemma toy_accepts:
  "fst (pam_authenticate (toy_pam ''secret'') 1 0
          \<lparr>mem = three_messages, kept = Some \<lparr>conv = my_conv ''secret'', appdata_ptr = 0\<rparr>\<rparr>) = 0"
  by code_simp

lemma toy_rejects:
  "fst (pam_authenticate (toy_pam ''secret'') 1 0
          \<lparr>mem = three_messages, kept = Some \<lparr>conv = my_conv ''guess'', appdata_ptr = 0\<rparr>\<rparr>) = 7"
  by code_simp

section \<open>The session protocol\<close>

text \<open>
  C1. For every username, password and service: when \<open>pam_start\<close> returns 0,
  \<open>authenticate\<close> returns true exactly when the status of \<open>pam_authenticate\<close> and the
  status of \<open>pam_end\<close> are both 0. In particular a nonzero status of \<open>pam_end\<close> after a
  successful \<open>pam_authenticate\<close> gives false.
\<close>

theorem authenticate_result:
  assumes "pam_start lib service username \<lparr>conv = my_conv password, appdata_ptr = 0\<rparr> PamHandle (native s) = ((0, handle), n1)"
    and "pam_authenticate lib handle 0 n1 = (authStatus, n2)"
    and "pam_end lib handle authStatus n2 = (endStatus, n3)"
  shows "fst (authenticate lib username password service s) \<longleftrightarrow> authStatus = 0 \<and> endStatus = 0"
  using assms by (simp add: authenticate_def PAM_START_def PAM_AUTHENTICATE_def PAM_END_def)

text \<open>
  Against the module above: the right password is accepted, a wrong one is rejected by
  \<open>pam_authenticate\<close>.
\<close>

theorem authenticate_result_witness:
  "fst (authenticate (toy_pam ''secret'') ''alice'' ''secret'' ''login'' fresh_session) \<and>
   \<not> fst (authenticate (toy_pam ''secret'') ''alice'' ''guess'' ''login'' fresh_session)"
proof -
  let ?lib = "toy_pam ''secret''"
  let ?n1 = "\<lambda>pw. \<lparr>mem = three_messages, kept = Some \<lparr>conv = my_conv pw, appdata_ptr = 0\<rparr>\<rparr>"
  have start: "pam_start ?lib ''login'' ''alice'' \<lparr>conv = my_conv pw, appdata_ptr = 0\<rparr> PamHandle (native fresh_session)
                 = ((0, 1), ?n1 pw)" for pw
    by (simp add: toy_pam_def fresh_session_def)
  have good: "pam_authenticate ?lib 1 0 (?n1 ''secret'') = (0, snd (pam_authenticate ?lib 1 0 (?n1 ''secret'')))"
    using toy_accepts by (simp add: prod_eq_iff)
  have bad: "pam_authenticate ?lib 1 0 (?n1 ''guess'') = (7, snd (pam_authenticate ?lib 1 0 (?n1 ''guess'')))"
    using toy_rejects by (simp add: prod_eq_iff)
  have fin: "pam_end ?lib 1 st n = (0, n\<lparr>kept := None\<rparr>)" for st n
    by (simp add: toy_pam_def)
  from authenticate_result [OF start good fin] authenticate_result [OF start bad fin]
  show ?thesis by simp
qed

text \<open>
  C2. For every input on which \<open>pam_start\<close> returns a nonzero status, \<open>authenticate\<close>
  returns false and the calls it makes are \<open>pam_start\<close> and then one \<open>pam_end\<close> with the
  handle and that status: \<open>pam_authenticate\<close> is not called.
\<close>

theorem start_failure:
  assumes "pam_start lib service username \<lparr>conv = my_conv password, appdata_ptr = 0\<rparr> PamHandle (native s) = ((startStatus, handle), n1)"
    and "startStatus \<noteq> 0"
  shows "\<not> fst (authenticate lib username password service s) \<and>
         seen (snd (authenticate lib username password service s)) =
           seen s @ [Start service username startStatus handle,
                     End handle startStatus (fst (pam_end lib handle startStatus n1))]"
  using assms by (simp add: authenticate_def PAM_START_def PAM_AUTHENTICATE_def PAM_END_def split: prod.splits)

text \<open>
  The module above does not know the service \<open>sshd\<close>.
\<close>

theorem start_failure_witness:
  "\<not> fst (authenticate (toy_pam ''secret'') ''alice'' ''secret'' ''sshd'' fresh_session) \<and>
   seen (snd (authenticate (toy_pam ''secret'') ''alice'' ''secret'' ''sshd'' fresh_session)) =
     [Start ''sshd'' ''alice'' 3 0, End 0 3 0]"
proof -
  have start: "pam_start (toy_pam ''secret'') ''sshd'' ''alice'' \<lparr>conv = my_conv ''secret'', appdata_ptr = 0\<rparr>
                 PamHandle (native fresh_session) = ((3, 0), native fresh_session)"
    by (simp add: toy_pam_def PamHandle_def)
  have nz: "(3 :: c_int) \<noteq> 0" by simp
  from start_failure [OF start nz] show ?thesis
    by (simp add: toy_pam_def fresh_session_def)
qed

text \<open>
  C4. On every path of \<open>authenticate\<close> the calls on the library are \<open>pam_start\<close>,
  \<open>pam_end\<close> or \<open>pam_start\<close>, \<open>pam_authenticate\<close>, \<open>pam_end\<close>: \<open>pam_end\<close> is called
  exactly once, last, with the handle and the status returned by the call before it, and
  as often as \<open>pam_start\<close>.
\<close>

theorem end_after_every_start:
  "\<exists>st h a e.
     (calls_during s (snd (authenticate lib username password service s)) =
        [Start service username st h, End h st e] \<or>
      calls_during s (snd (authenticate lib username password service s)) =
        [Start service username 0 h, Authenticate h 0 a, End h a e]) \<and>
     seen (snd (authenticate lib username password service s)) =
       seen s @ calls_during s (snd (authenticate lib username password service s)) \<and>
     length (filter is_End (calls_during s (snd (authenticate lib username password service s)))) = 1 \<and>
     length (filter is_Start (calls_during s (snd (authenticate lib username password service s)))) =
       length (filter is_End (calls_during s (snd (authenticate lib username password service s))))"
proof -
  obtain st h n1 where start:
    "pam_start lib service username \<lparr>conv = my_conv password, appdata_ptr = 0\<rparr> PamHandle (native s) = ((st, h), n1)"
    by (metis surj_pair)
  show ?thesis
  proof (cases "st = 0")
    case False
    with start have "calls_during s (snd (authenticate lib username password service s)) =
        [Start service username st h, End h st (fst (pam_end lib h st n1))]"
      by (simp add: calls_during_def authenticate_def PAM_START_def PAM_END_def split: prod.splits)
    moreover from False start have "seen (snd (authenticate lib username password service s)) =
        seen s @ [Start service username st h, End h st (fst (pam_end lib h st n1))]"
      by (simp add: authenticate_def PAM_START_def PAM_END_def split: prod.splits)
    ultimately show ?thesis by simp
  next
    case True
    obtain a n2 where auth: "pam_authenticate lib h 0 n1 = (a, n2)"
      by (metis surj_pair)
    from True start auth
    have "calls_during s (snd (authenticate lib username password service s)) =
        [Start service username 0 h, Authenticate h 0 a, End h a (fst (pam_end lib h a n2))]"
      by (simp add: calls_during_def authenticate_def PAM_START_def PAM_AUTHENTICATE_def PAM_END_def
          split: prod.splits)
    moreover from True start auth
    have "seen (snd (authenticate lib username password service s)) =
        seen s @ [Start service username 0 h, Authenticate h 0 a, End h a (fst (pam_end lib h a n2))]"
      by (simp add: authenticate_def PAM_START_def PAM_AUTHENTICATE_def PAM_END_def split: prod.splits)
    ultimately show ?thesis by simp
  qed
qed

section \<open>The conversation\<close>

text \<open>
  In the statements below the PAM module has handed in an array of messages \<open>msgs\<close>, as
  many as \<open>n_messages\<close> says, and \<open>p_response\<close> points to the cell for the address of the
  response array; \<open>(r, m')\<close> is what the call of \<open>my_conv\<close> yields from memory \<open>m\<close>.
\<close>



text \<open>
  C5. For every \<open>n_messages \<ge> 0\<close>, also 0, when \<open>calloc\<close> serves the request: one call of
  \<open>my_conv\<close> makes one call of \<open>calloc\<close>, for as many structures as there are messages, all
  zeroed; the address it returned is stored through \<open>p_response\<close>; after the call the array
  there has the length of the message array, and each element not belonging to a password
  prompt is still zeroed.
\<close>

theorem response_array_allocated:
  assumes n: "0 \<le> sint n"
    and arr: "message_array m messages n msgs"
    and out: "lookup m p_response = Some (ResponsePtr old)"
    and mem: "\<not> refused m"
    and call: "my_conv password n messages p_response app_data m = (r, m')"
  shows "\<exists>a rs. a \<noteq> 0 \<and>
           filter is_Calloc (calls_since m m') = [Calloc (length msgs) a] \<and>
           lookup (snd (CALLOC (length msgs) m)) a = Some (Responses (replicate (length msgs) zeroed)) \<and>
           lookup m' p_response = Some (ResponsePtr a) \<and>
           lookup m' a = Some (Responses rs) \<and>
           length rs = length msgs \<and>
           (\<forall>i<length msgs. rs ! i = zeroed \<or> echo_off (msgs ! i)) \<and>
           r = Inr 0"
proof -
  note len = message_arrayD(1) [OF arr] and rd = message_arrayD(2) [OF arr]
  from n len have un: "unat n = length msgs" by (simp add: unat_nonneg_c_int)
  define a where "a = Suc (length (heap m))"
  from my_conv_served [OF out mem rd, of password app_data] call
  obtain rs bs where
    r: "r = Inr 0"
    and p': "lookup m' p_response = Some (ResponsePtr a)"
    and a': "lookup m' a = Some (Responses rs)"
    and lrs: "length rs = unat n"
    and cl: "calls m' = calls m @ Calloc (unat n) a # map (Strdup password) bs"
    and others: "\<forall>i<unat n. \<not> (i < nat (sint n) \<and> echo_off (msgs ! i)) \<longrightarrow> rs ! i = zeroed"
    unfolding a_def by auto
  from cl have "calls_since m m' = Calloc (unat n) a # map (Strdup password) bs"
    by (rule calls_since_append)
  then have c: "filter is_Calloc (calls_since m m') = [Calloc (length msgs) a]"
    by (simp add: un filter_map comp_def)
  from mem have "heap (snd (CALLOC (length msgs) m)) = heap m @ [Responses (replicate (length msgs) zeroed)]"
    by (simp add: CALLOC_fields)
  then have z: "lookup (snd (CALLOC (length msgs) m)) a = Some (Responses (replicate (length msgs) zeroed))"
    unfolding a_def by (rule lookup_append_new)
  from others un have e: "\<forall>i<length msgs. rs ! i = zeroed \<or> echo_off (msgs ! i)" by auto
  have "a \<noteq> 0" by (simp add: a_def)
  with c z p' a' lrs un e r show ?thesis by auto
qed

theorem response_array_allocated_witness:
  "(\<exists>a rs. a \<noteq> 0 \<and>
      filter is_Calloc (calls_since three_messages (snd (my_conv ''secret'' 3 1 7 0 three_messages))) = [Calloc 3 a] \<and>
      lookup (snd (my_conv ''secret'' 3 1 7 0 three_messages)) 7 = Some (ResponsePtr a) \<and>
      lookup (snd (my_conv ''secret'' 3 1 7 0 three_messages)) a = Some (Responses rs) \<and>
      length rs = 3) \<and>
   (\<exists>a. a \<noteq> 0 \<and>
      filter is_Calloc (calls_since three_messages (snd (my_conv ''secret'' 0 1 7 0 three_messages))) = [Calloc 0 a] \<and>
      lookup (snd (my_conv ''secret'' 0 1 7 0 three_messages)) 7 = Some (ResponsePtr a) \<and>
      lookup (snd (my_conv ''secret'' 0 1 7 0 three_messages)) a = Some (Responses []))"
proof -
  have n3: "0 \<le> sint (3 :: c_int)" and n0: "0 \<le> sint (0 :: c_int)" by simp_all
  have none: "message_array three_messages 1 0 []" by code_simp
  have mem: "\<not> refused three_messages" by (simp add: refused_def three_messages_def)
  have l3: "length three_msgs = 3" by (simp add: three_msgs_def)
  from response_array_allocated [OF n3 three_messages_array three_messages_out mem secret_call]
  obtain a rs where "a \<noteq> 0"
    "filter is_Calloc (calls_since three_messages (snd (my_conv ''secret'' 3 1 7 0 three_messages))) = [Calloc (length three_msgs) a]"
    "lookup (snd (my_conv ''secret'' 3 1 7 0 three_messages)) 7 = Some (ResponsePtr a)"
    "lookup (snd (my_conv ''secret'' 3 1 7 0 three_messages)) a = Some (Responses rs)"
    "length rs = length three_msgs"
    by blast
  then have three: "\<exists>a rs. a \<noteq> 0 \<and>
      filter is_Calloc (calls_since three_messages (snd (my_conv ''secret'' 3 1 7 0 three_messages))) = [Calloc 3 a] \<and>
      lookup (snd (my_conv ''secret'' 3 1 7 0 three_messages)) 7 = Some (ResponsePtr a) \<and>
      lookup (snd (my_conv ''secret'' 3 1 7 0 three_messages)) a = Some (Responses rs) \<and>
      length rs = 3"
    unfolding l3 by blast
  from response_array_allocated [OF n0 none three_messages_out mem secret_call]
  obtain a rs where "a \<noteq> 0"
    "filter is_Calloc (calls_since three_messages (snd (my_conv ''secret'' 0 1 7 0 three_messages))) = [Calloc (length ([] :: PamMessage list)) a]"
    "lookup (snd (my_conv ''secret'' 0 1 7 0 three_messages)) 7 = Some (ResponsePtr a)"
    "lookup (snd (my_conv ''secret'' 0 1 7 0 three_messages)) a = Some (Responses rs)"
    "length rs = length ([] :: PamMessage list)"
    by blast
  then have "\<exists>a. a \<noteq> 0 \<and>
      filter is_Calloc (calls_since three_messages (snd (my_conv ''secret'' 0 1 7 0 three_messages))) = [Calloc 0 a] \<and>
      lookup (snd (my_conv ''secret'' 0 1 7 0 three_messages)) 7 = Some (ResponsePtr a) \<and>
      lookup (snd (my_conv ''secret'' 0 1 7 0 three_messages)) a = Some (Responses [])"
    by auto
  with three show ?thesis ..
qed

text \<open>
  C6, as the code has it. A NULL from the allocator is not signalled and the request is not
  repeated. When \<open>calloc\<close> returns NULL, NULL is stored through \<open>p_response\<close> and \<open>calloc\<close>
  has been called once. Otherwise \<open>my_conv\<close> returns 0, and whatever \<open>strdup\<close> returned
  for a password prompt, NULL or not, is the text of that slot, with return code 0: one
  call of \<open>strdup\<close> for each prompt, in order.
\<close>

theorem null_allocation_stored:
  assumes arr: "message_array m messages n msgs"
    and out: "lookup m p_response = Some (ResponsePtr old)"
    and call: "my_conv password n messages p_response app_data m = (r, m')"
  shows "if refused m
         then lookup m' p_response = Some (ResponsePtr 0) \<and>
              filter is_Calloc (calls_since m m') = [Calloc (unat n) 0]
         else r = Inr 0 \<and>
              (\<exists>a rs bs. responses_of m' p_response = Some rs \<and>
                 calls_since m m' = Calloc (unat n) a # map (Strdup password) bs \<and>
                 map ((!) rs) (filter (\<lambda>i. echo_off (msgs ! i)) [0..<length msgs]) =
                   map (\<lambda>b. \<lparr>resp = b, resp_retcode = 0\<rparr>) bs)"
proof -
  note len = message_arrayD(1) [OF arr] and rd = message_arrayD(2) [OF arr]
  show ?thesis
  proof (cases "refused m")
    case True
    from my_conv_refused [OF out True rd, of password app_data] call
    obtain bs where p': "lookup m' p_response = Some (ResponsePtr 0)"
      and cl: "calls m' = calls m @ Calloc (unat n) 0 # map (Strdup password) bs"
      by auto
    from cl have "calls_since m m' = Calloc (unat n) 0 # map (Strdup password) bs"
      by (rule calls_since_append)
    then have "filter is_Calloc (calls_since m m') = [Calloc (unat n) 0]"
      by (simp add: filter_map comp_def)
    with p' True show ?thesis by simp
  next
    case False
    from my_conv_served [OF out False rd, of password app_data] call
    obtain rs bs where
      r: "r = Inr 0"
      and p': "lookup m' p_response = Some (ResponsePtr (Suc (length (heap m))))"
      and a': "lookup m' (Suc (length (heap m))) = Some (Responses rs)"
      and cl: "calls m' = calls m @ Calloc (unat n) (Suc (length (heap m))) # map (Strdup password) bs"
      and slots: "map ((!) rs) (filter (\<lambda>i. echo_off (msgs ! i)) [0..<nat (sint n)]) =
                    map (\<lambda>b. \<lparr>resp = b, resp_retcode = 0\<rparr>) bs"
      by auto
    from p' a' have ro: "responses_of m' p_response = Some rs" by (rule responses_ofI)
    from cl have "calls_since m m' = Calloc (unat n) (Suc (length (heap m))) # map (Strdup password) bs"
      by (rule calls_since_append)
    with ro slots r False show ?thesis by (auto simp: len)
  qed
qed

theorem null_allocation_stored_witness:
  "fst (my_conv ''secret'' 3 1 7 0 (three_messages\<lparr>oom := [False, True]\<rparr>)) = Inr 0 \<and>
   (\<exists>a rs bs.
      responses_of (snd (my_conv ''secret'' 3 1 7 0 (three_messages\<lparr>oom := [False, True]\<rparr>))) 7 = Some rs \<and>
      calls_since (three_messages\<lparr>oom := [False, True]\<rparr>)
          (snd (my_conv ''secret'' 3 1 7 0 (three_messages\<lparr>oom := [False, True]\<rparr>))) =
        Calloc 3 a # map (Strdup ''secret'') bs \<and>
      [rs ! 0, rs ! 2] = map (\<lambda>b. \<lparr>resp = b, resp_retcode = 0\<rparr>) bs) \<and>
   lookup (snd (my_conv ''secret'' 3 1 7 0 (three_messages\<lparr>oom := [True]\<rparr>))) 7 = Some (ResponsePtr 0) \<and>
   filter is_Calloc (calls_since (three_messages\<lparr>oom := [True]\<rparr>)
       (snd (my_conv ''secret'' 3 1 7 0 (three_messages\<lparr>oom := [True]\<rparr>)))) = [Calloc 3 0]"
proof -
  have arr: "message_array (three_messages\<lparr>oom := [False, True]\<rparr>) 1 3 three_msgs" by code_simp
  have out: "lookup (three_messages\<lparr>oom := [False, True]\<rparr>) 7 = Some (ResponsePtr 0)" by code_simp
  have mem: "\<not> refused (three_messages\<lparr>oom := [False, True]\<rparr>)" by (simp add: refused_def)
  have arr': "message_array (three_messages\<lparr>oom := [True]\<rparr>) 1 3 three_msgs" by code_simp
  have out': "lookup (three_messages\<lparr>oom := [True]\<rparr>) 7 = Some (ResponsePtr 0)" by code_simp
  have mem': "refused (three_messages\<lparr>oom := [True]\<rparr>)" by (simp add: refused_def)
  have idx: "filter (\<lambda>i. echo_off (three_msgs ! i)) [0..<length three_msgs] = [0, 2]" by code_simp
  have u: "unat (3 :: c_int) = 3" by simp
  from null_allocation_stored [OF arr out secret_call] null_allocation_stored [OF arr' out' secret_call] mem mem'
  show ?thesis unfolding idx u by simp
qed

text \<open>
  C6 as stated fails: here the first \<open>strdup\<close> returns NULL, the loop goes on to the
  second prompt, and \<open>my_conv\<close> returns 0 with a NULL text in the first slot.
\<close>

theorem null_allocation_stored_counterexample:
  "calls_since (three_messages\<lparr>oom := [False, True]\<rparr>)
       (snd (my_conv ''secret'' 3 1 7 0 (three_messages\<lparr>oom := [False, True]\<rparr>))) =
     [Calloc 3 8, Strdup ''secret'' 0, Strdup ''secret'' 9] \<and>
   fst (my_conv ''secret'' 3 1 7 0 (three_messages\<lparr>oom := [False, True]\<rparr>)) = Inr 0 \<and>
   map_option (map resp) (responses_of (snd (my_conv ''secret'' 3 1 7 0 (three_messages\<lparr>oom := [False, True]\<rparr>))) 7) =
     Some [0, 0, 9]"
  by code_simp




text \<open>
  C8. When \<open>calloc\<close> served the request (\<open>strdup\<close> may fail): for every index whose
  message has a style other than \<open>PAM_PROMPT_ECHO_OFF\<close>, the text of the response slot is
  the NULL pointer, which designates no bytes at all.
\<close>

theorem no_text_for_other_styles:
  assumes arr: "message_array m messages n msgs"
    and out: "lookup m p_response = Some (ResponsePtr old)"
    and mem: "\<not> refused m"
    and call: "my_conv password n messages p_response app_data m = (r, m')"
    and i: "i < length msgs"
    and style: "msg_style (msgs ! i) \<noteq> PAM_PROMPT_ECHO_OFF"
  shows "\<exists>rs. responses_of m' p_response = Some rs \<and> i < length rs \<and>
           resp (rs ! i) = 0 \<and> text_of m' (rs ! i) = None"
proof -
  note len = message_arrayD(1) [OF arr] and rd = message_arrayD(2) [OF arr]
  from my_conv_served [OF out mem rd, of password app_data] call
  obtain rs where
    p': "lookup m' p_response = Some (ResponsePtr (Suc (length (heap m))))"
    and a': "lookup m' (Suc (length (heap m))) = Some (Responses rs)"
    and lrs: "length rs = unat n"
    and others: "\<forall>i<unat n. \<not> (i < nat (sint n) \<and> echo_off (msgs ! i)) \<longrightarrow> rs ! i = zeroed"
    by auto
  from p' a' have ro: "responses_of m' p_response = Some rs" by (rule responses_ofI)
  from i len range_within_block [of n] lrs have irs: "i < length rs" by simp
  with others lrs style have z: "rs ! i = zeroed" by (simp add: echo_off_def)
  then have "resp (rs ! i) = 0" by (simp add: zeroed_def)
  moreover from this have "text_of m' (rs ! i) = None" by (simp add: text_of_def lookup_def)
  ultimately show ?thesis using ro irs by simp
qed

theorem no_text_for_other_styles_witness:
  "\<exists>rs. responses_of (snd (my_conv ''secret'' 3 1 7 0 three_messages)) 7 = Some rs \<and>
        resp (rs ! 1) = 0 \<and>
        text_of (snd (my_conv ''secret'' 3 1 7 0 three_messages)) (rs ! 1) = None"
proof -
  have mem: "\<not> refused three_messages" by (simp add: refused_def three_messages_def)
  have i: "1 < length three_msgs" by (simp add: three_msgs_def)
  have style: "msg_style (three_msgs ! 1) \<noteq> PAM_PROMPT_ECHO_OFF"
    by (simp add: three_msgs_def PAM_PROMPT_ECHO_OFF_def PAM_TEXT_INFO_def)
  from no_text_for_other_styles [OF three_messages_array three_messages_out mem secret_call i style]
  show ?thesis by auto
qed

text \<open>
  C9. \<open>my_conv\<close> does not change the messages: whatever the call ends in,
  \<open>messages[i].contents\<close> reads after the call as it read before, style and text pointer,
  and the bytes of the text are the same.
\<close>

theorem messages_unchanged:
  assumes call: "my_conv password n messages p_response app_data m = (r, m')"
    and rd: "get_message m messages i = Inr x"
  shows "get_message m' messages i = Inr x \<and>
         (\<forall>t. lookup m (msg x) = Some (Chars t) \<longrightarrow> lookup m' (msg x) = Some (Chars t))"
proof -
  from my_conv_frame [of m password n messages p_response app_data] call
  have fr: "frame m m'" by simp
  with rd have "get_message m' messages i = Inr x" by (rule get_message_frame)
  moreover from fr have "\<forall>t. lookup m (msg x) = Some (Chars t) \<longrightarrow> lookup m' (msg x) = Some (Chars t)"
    by (simp add: frame_def readonly_def)
  ultimately show ?thesis ..
qed

theorem messages_unchanged_witness:
  "get_message (snd (my_conv ''secret'' 3 1 7 0 three_messages)) 1 0 =
     Inr \<lparr>msg_style = PAM_PROMPT_ECHO_OFF, msg = 5\<rparr> \<and>
   lookup (snd (my_conv ''secret'' 3 1 7 0 three_messages)) 5 = Some (Chars ''Password: '')"
proof -
  have rd: "get_message three_messages 1 0 = Inr \<lparr>msg_style = PAM_PROMPT_ECHO_OFF, msg = 5\<rparr>"
    by code_simp
  have buf: "lookup three_messages 5 = Some (Chars ''Password: '')"
    by code_simp
  from messages_unchanged [OF secret_call rd] buf show ?thesis by simp
qed



end
